theory Spec2Isabelle
  imports Main "HOL-Library.AList"
begin

section \<open>Messages and the sliding-window memory (module 2)\<close>

text \<open>
  A message is the Python dict \<open>{"role": ..., "content": ...}\<close>, possibly extended by
  further keys (\<open>message.update(kwargs)\<close>).  The keyword arguments of \<open>add_message\<close>
  can never be called \<open>role\<close> or \<open>content\<close> (Python rejects a keyword that repeats a
  positional parameter), so the two fixed fields are kept apart from the extra ones.
\<close>

record message =
  role :: string
  content :: string
  extra :: "(string \<times> string) list"

record memory =
  messages :: "message list"
  window_size :: int
  system_prompt :: string

text \<open>
  The Python slice \<open>xs[start:]\<close> for an integer \<open>start\<close>: a negative start counts from
  the end and is clipped at the front of the list, a non-negative one is clipped at its end.
  Note that \<open>xs[-0:]\<close> is \<open>xs[0:]\<close>, the whole list.
\<close>

definition slice_from :: "int \<Rightarrow> 'a list \<Rightarrow> 'a list" where
  "slice_from start xs =
     (if start < 0 then drop (nat (int (length xs) + start)) xs else drop (nat start) xs)"

text \<open>\<open>Memory.__init__\<close>: an empty (falsy) system prompt stores no message.\<close>

definition Memory_init :: "int \<Rightarrow> string \<Rightarrow> memory" where
  "Memory_init ws sp =
     \<lparr> messages = (if sp \<noteq> [] then [\<lparr> role = ''system'', content = sp, extra = [] \<rparr>] else []),
       window_size = ws,
       system_prompt = sp \<rparr>"

text \<open>\<open>Memory.add_message\<close>: appends, whatever the role.\<close>

definition add_message :: "string \<Rightarrow> string \<Rightarrow> (string \<times> string) list \<Rightarrow> memory \<Rightarrow> memory" where
  "add_message r c kwargs mem =
     mem \<lparr> messages := messages mem @ [\<lparr> role = r, content = c, extra = kwargs \<rparr>] \<rparr>"

text \<open>\<open>Memory.get_messages\<close>.\<close>

definition get_messages :: "memory \<Rightarrow> message list" where
  "get_messages mem =
     (if messages mem = [] then []
      else if role (hd (messages mem)) = ''system''
        then [hd (messages mem)] @ slice_from (- window_size mem) (tl (messages mem))
        else slice_from (- window_size mem) (messages mem))"

text \<open>\<open>Memory.clear\<close>.\<close>

definition clear :: "memory \<Rightarrow> memory" where
  "clear mem =
     (if messages mem \<noteq> [] \<and> role (hd (messages mem)) = ''system''
      then mem \<lparr> messages := [hd (messages mem)] \<rparr>
      else mem \<lparr> messages := [] \<rparr>)"

text \<open>A sequence of \<open>add_message\<close> calls, each given as (role, content, kwargs).\<close>

definition add_messages :: "(string \<times> string \<times> (string \<times> string) list) list \<Rightarrow> memory \<Rightarrow> memory" where
  "add_messages ops mem = foldl (\<lambda>m (r, c, k). add_message r c k m) mem ops"

text \<open>
  The conversation invariant of the data model: the positions holding a message of role
  \<open>system\<close> are at most one, and only position 0.
\<close>

definition system_positions :: "message list \<Rightarrow> nat list" where
  "system_positions msgs = filter (\<lambda>i. role (msgs ! i) = ''system'') [0..<length msgs]"

definition conversation_invariant :: "message list \<Rightarrow> bool" where
  "conversation_invariant msgs \<longleftrightarrow>
     length (system_positions msgs) \<le> 1 \<and> set (system_positions msgs) \<subseteq> {0}"


section \<open>The tool registry (module 1)\<close>

text \<open>
  Python exceptions, as far as the code tells them apart: \<open>except Exception\<close> catches
  the instances of class \<open>Exception\<close> (\<open>Exc\<close>) and lets the other instances of
  \<open>BaseException\<close> (\<open>BaseExc\<close>: \<open>SystemExit\<close>, \<open>KeyboardInterrupt\<close>,
  \<open>GeneratorExit\<close>) pass.  Each carries what evaluating \<open>str(e)\<close> does: it yields the
  message, or the method \<open>__str__\<close> of the exception's class raises in its turn.
\<close>

datatype py_exc = Exc "py_exc + string" | BaseExc "py_exc + string"

text \<open>
  A default value of a parameter, as far as the code looks at it: its \<open>repr\<close>, and what
  the test \<open>if param.default == inspect.Parameter.empty\<close> does on it.  The \<open>==\<close> is
  that of the default's class: it answers false for ordinary values, it may answer true
  (as \<open>unittest.mock.ANY\<close> does for every operand), and the comparison or the truth
  value of its result may raise (as for an array of several elements).
\<close>

record default_value =
  dv_repr :: string
  dv_equals_empty :: "py_exc + bool"

text \<open>
  A parameter of a signature: its name and its default value, if any (\<open>None\<close> stands
  for \<open>inspect.Parameter.empty\<close>, which is equal to itself).
\<close>

record param =
  pname :: string
  pdefault :: "default_value option"

definition equals_empty :: "param \<Rightarrow> py_exc + bool" where
  "equals_empty p = (case pdefault p of None \<Rightarrow> Inr True | Some d \<Rightarrow> dv_equals_empty d)"

text \<open>
  A registered capability, a function defined with \<open>def\<close>: its \<open>__name__\<close>, its
  docstring as \<open>inspect.getdoc\<close> gives it, the parameters of \<open>inspect.signature\<close> in
  order, and its behaviour.  \<open>cap_call\<close> is the evaluation of \<open>str(func(**arguments))\<close>: it
  yields the rendered result, or the exception raised by the argument binding, by the
  body or by the rendering.
\<close>

record 'a capability =
  cap_name :: string
  cap_doc :: "string option"
  cap_params :: "param list"
  cap_call :: "'a \<Rightarrow> py_exc + string"

text \<open>
  The registry's \<open>tools\<close> dict, in insertion order.  Assigning an existing key keeps
  the key's position and replaces its value, as \<open>AList.update\<close> does.
\<close>

type_synonym 'a registry = "(string \<times> 'a capability) list"

definition register :: "'a capability \<Rightarrow> 'a registry \<Rightarrow> 'a registry" where
  "register func tools = AList.update (cap_name func) func tools"

record param_schema =
  ptype :: string
  pdescription :: string

record parameters_schema =
  ps_type :: string
  properties :: "(string \<times> param_schema) list"
  required :: "string list"

record function_schema =
  fs_name :: string
  fs_description :: string
  fs_parameters :: parameters_schema

record tool_schema =
  ts_type :: string
  ts_function :: function_schema

text \<open>\<open>docstring.split('\n')[0] if docstring else "No description provided."\<close>\<close>

definition description_of :: "string option \<Rightarrow> string" where
  "description_of doc =
     (case doc of
        None \<Rightarrow> ''No description provided.''
      | Some d \<Rightarrow> if d = [] then ''No description provided.''
                 else takeWhile (\<lambda>c. c \<noteq> CHR 0x0A) d)"

text \<open>
  The loop over \<open>signature.parameters.items()\<close>, on the accumulator
  (\<open>parameters["properties"]\<close>, \<open>parameters["required"]\<close>).  An exception raised by
  the test on the default ends the loop, and the method.
\<close>

fun add_params :: "param list \<Rightarrow> (string \<times> param_schema) list \<times> string list
    \<Rightarrow> py_exc + (string \<times> param_schema) list \<times> string list" where
  "add_params [] acc = Inr acc"
| "add_params (p # ps) (props, req) =
     (case equals_empty p of
        Inl e \<Rightarrow> Inl e
      | Inr is_empty \<Rightarrow>
          add_params ps
            (AList.update (pname p)
               \<lparr> ptype = ''string'', pdescription = ''The '' @ pname p @ '' parameter'' \<rparr> props,
             if is_empty then req @ [pname p] else req))"

text \<open>The body of the loop over \<open>self.tools.items()\<close>: the schema of one tool.\<close>

definition schema_of :: "string \<times> 'a capability \<Rightarrow> py_exc + tool_schema" where
  "schema_of entry =
     (case add_params (cap_params (snd entry)) ([], []) of
        Inl e \<Rightarrow> Inl e
      | Inr (props, req) \<Rightarrow>
          Inr \<lparr> ts_type = ''function'',
                ts_function =
                  \<lparr> fs_name = fst entry,
                    fs_description = description_of (cap_doc (snd entry)),
                    fs_parameters = \<lparr> ps_type = ''object'', properties = props, required = req \<rparr> \<rparr> \<rparr>)"

text \<open>
  \<open>ToolRegistry.get_tool_schema\<close>: one schema per registered tool, in dict order, or
  the first exception raised on the way.
\<close>

fun get_tool_schema :: "'a registry \<Rightarrow> py_exc + tool_schema list" where
  "get_tool_schema [] = Inr []"
| "get_tool_schema (entry # tools) =
     (case schema_of entry of
        Inl e \<Rightarrow> Inl e
      | Inr schema \<Rightarrow>
          (case get_tool_schema tools of
             Inl e \<Rightarrow> Inl e
           | Inr schemas \<Rightarrow> Inr (schema # schemas)))"

text \<open>
  \<open>ToolRegistry.call_tool\<close>.  The result is \<open>Inr\<close> of the returned string, or
  \<open>Inl\<close> of the exception that leaves the method.  The handler of
  \<open>except Exception as e\<close> evaluates \<open>str(e)\<close> outside the \<open>try\<close>: an exception that
  \<open>str(e)\<close> raises leaves the method too.
\<close>

definition call_tool :: "string \<Rightarrow> 'a \<Rightarrow> 'a registry \<Rightarrow> py_exc + string" where
  "call_tool tool_name arguments tools =
     (case map_of tools tool_name of
        None \<Rightarrow> Inr (''Error: Tool '' @ [CHR 0x27] @ tool_name @ [CHR 0x27] @ '' not found.'')
      | Some func \<Rightarrow>
          (case cap_call func arguments of
             Inr result \<Rightarrow> Inr result
           | Inl (Exc str_e) \<Rightarrow>
               (case str_e of
                  Inr msg \<Rightarrow> Inr (''Error calling tool '' @ tool_name @ '': '' @ msg)
                | Inl e' \<Rightarrow> Inl e')
           | Inl (BaseExc str_e) \<Rightarrow> Inl (BaseExc str_e)))"


section \<open>Text matching (the regular expressions of the client and the ReAct agent)\<close>

text \<open>
  Text is a list of 8-bit characters, read as the code points below 256.  The classes
  \<open>\s\<close> and \<open>\w\<close> of Python's \<open>re\<close> on \<open>str\<close> patterns, and the whitespace of
  \<open>str.strip\<close>, on these code points.
\<close>

definition is_space :: "char \<Rightarrow> bool" where
  "is_space c = (let n = (of_char c :: nat) in
     (9 \<le> n \<and> n \<le> 13) \<or> (28 \<le> n \<and> n \<le> 32) \<or> n = 133 \<or> n = 160)"

definition is_word :: "char \<Rightarrow> bool" where
  "is_word c = (let n = (of_char c :: nat) in
     (48 \<le> n \<and> n \<le> 57) \<or> (65 \<le> n \<and> n \<le> 90) \<or> n = 95 \<or> (97 \<le> n \<and> n \<le> 122)
     \<or> n = 170 \<or> n = 178 \<or> n = 179 \<or> n = 181 \<or> n = 185 \<or> n = 186
     \<or> (188 \<le> n \<and> n \<le> 190) \<or> (192 \<le> n \<and> n \<le> 214) \<or> (216 \<le> n \<and> n \<le> 246)
     \<or> 248 \<le> n)"

text \<open>The rest of the text after a literal prefix, if the text starts with it.\<close>

fun after_prefix :: "string \<Rightarrow> string \<Rightarrow> string option" where
  "after_prefix [] s = Some s"
| "after_prefix (p # ps) [] = None"
| "after_prefix (p # ps) (c # cs) = (if p = c then after_prefix ps cs else None)"

text \<open>Python's \<open>sub in s\<close> on strings.\<close>

fun contains :: "string \<Rightarrow> string \<Rightarrow> bool" where
  "contains sub [] = (sub = [])"
| "contains sub (c # cs) = (after_prefix sub (c # cs) \<noteq> None \<or> contains sub cs)"

text \<open>
  A match of \<open>PREFIX\s*(\w+)\((.*?)\)\<close> (with \<open>re.DOTALL\<close>) at the start of the text:
  the two groups and the text after the match.  The greedy \<open>\s*\<close> and \<open>\w+\<close> take the
  longest runs (a shorter run is followed by a character of its own class, which
  neither \<open>\w\<close> nor \<open>\(\<close> accepts), and the lazy \<open>.*?\<close> stops at the first \<open>)\<close>.
\<close>

definition match_call :: "string \<Rightarrow> string \<Rightarrow> (string \<times> string \<times> string) option" where
  "match_call pre s =
     (case after_prefix pre s of
        None \<Rightarrow> None
      | Some r0 \<Rightarrow>
          (let r1 = dropWhile is_space r0;
               name = takeWhile is_word r1;
               r2 = dropWhile is_word r1
           in if name = [] then None
              else (case r2 of
                      [] \<Rightarrow> None
                    | c # r3 \<Rightarrow>
                        if c \<noteq> CHR ''('' then None
                        else (let body = takeWhile (\<lambda>c. c \<noteq> CHR '')'') r3;
                                  r4 = dropWhile (\<lambda>c. c \<noteq> CHR '')'') r3
                              in (case r4 of [] \<Rightarrow> None | d # r5 \<Rightarrow> Some (name, body, r5))))))"

lemma after_prefix_length: "after_prefix p s = Some r \<Longrightarrow> length r \<le> length s"
  by (induction p s rule: after_prefix.induct) (auto split: if_splits)

lemma match_call_shorter:
  assumes "match_call pre s = Some (name, body, rest)"
  shows "length rest < length s"
proof -
  obtain r0 where r0: "after_prefix pre s = Some r0"
    using assms by (auto simp add: match_call_def split: option.splits)
  let ?r1 = "dropWhile is_space r0"
  let ?r2 = "dropWhile is_word ?r1"
  obtain c r3 where r2: "?r2 = c # r3"
    using assms r0 by (auto simp add: match_call_def Let_def split: if_splits list.splits)
  obtain d where r4: "dropWhile (\<lambda>c. c \<noteq> CHR '')'') r3 = d # rest"
    using assms r0 r2 by (auto simp add: match_call_def Let_def split: if_splits list.splits)
  have "length rest < length (dropWhile (\<lambda>c. c \<noteq> CHR '')'') r3)" using r4 by simp
  also have "\<dots> \<le> length r3" by (rule length_dropWhile_le)
  also have "\<dots> < length ?r2" using r2 by simp
  also have "\<dots> \<le> length ?r1" by (rule length_dropWhile_le)
  also have "\<dots> \<le> length r0" by (rule length_dropWhile_le)
  also have "\<dots> \<le> length s" using r0 by (rule after_prefix_length)
  finally show ?thesis .
qed

text \<open>
  \<open>re.finditer\<close> for that pattern: the matches from left to right, none overlapping;
  after a match the search goes on behind it, otherwise one character further.
\<close>

function find_calls :: "string \<Rightarrow> string \<Rightarrow> (string \<times> string) list" where
  "find_calls pre [] = []"
| "find_calls pre (c # cs) =
     (case match_call pre (c # cs) of
        Some (name, body, rest) \<Rightarrow> (name, body) # find_calls pre rest
      | None \<Rightarrow> find_calls pre cs)"
  by pat_completeness auto
termination
  by (relation "measure (\<lambda>(pre, s). length s)") (auto dest: match_call_shorter)

text \<open>\<open>re.search\<close> for that pattern: the leftmost match.\<close>

fun search_call :: "string \<Rightarrow> string \<Rightarrow> (string \<times> string) option" where
  "search_call pre [] = None"
| "search_call pre (c # cs) =
     (case match_call pre (c # cs) of
        Some (name, body, rest) \<Rightarrow> Some (name, body)
      | None \<Rightarrow> search_call pre cs)"

text \<open>
  A match of \<open>(\w+)="([^"]*)"\<close> at the start of the text: key, value and the text after
  the match.
\<close>

definition match_arg :: "string \<Rightarrow> (string \<times> string \<times> string) option" where
  "match_arg s =
     (let key = takeWhile is_word s;
          r1 = dropWhile is_word s
      in if key = [] then None
         else (case after_prefix [CHR ''='', CHR 0x22] r1 of
                 None \<Rightarrow> None
               | Some r2 \<Rightarrow>
                   (let v = takeWhile (\<lambda>c. c \<noteq> CHR 0x22) r2;
                        r3 = dropWhile (\<lambda>c. c \<noteq> CHR 0x22) r2
                    in (case r3 of [] \<Rightarrow> None | d # r4 \<Rightarrow> Some (key, v, r4)))))"

lemma match_arg_shorter:
  assumes "match_arg s = Some (key, v, rest)"
  shows "length rest < length s"
proof -
  obtain r2 where r2: "after_prefix [CHR ''='', CHR 0x22] (dropWhile is_word s) = Some r2"
    using assms by (auto simp add: match_arg_def Let_def split: if_splits option.splits)
  obtain d where r3: "dropWhile (\<lambda>c. c \<noteq> CHR 0x22) r2 = d # rest"
    using assms r2 by (auto simp add: match_arg_def Let_def split: if_splits list.splits)
  have "length rest < length (dropWhile (\<lambda>c. c \<noteq> CHR 0x22) r2)" using r3 by simp
  also have "\<dots> \<le> length r2" by (rule length_dropWhile_le)
  also have "\<dots> \<le> length (dropWhile is_word s)" using r2 by (rule after_prefix_length)
  also have "\<dots> \<le> length s" by (rule length_dropWhile_le)
  finally show ?thesis .
qed

function find_args :: "string \<Rightarrow> (string \<times> string) list" where
  "find_args [] = []"
| "find_args (c # cs) =
     (case match_arg (c # cs) of
        Some (key, v, rest) \<Rightarrow> (key, v) # find_args rest
      | None \<Rightarrow> find_args cs)"
  by pat_completeness auto
termination
  by (relation "measure length") (auto dest: match_arg_shorter)

text \<open>
  The argument loop: \<open>args[key] = value\<close> for each match, into a dict that starts
  empty.
\<close>

definition parse_args :: "string \<Rightarrow> (string \<times> string) list" where
  "parse_args args_str = fold (\<lambda>(key, v) args. AList.update key v args) (find_args args_str) []"

section \<open>The local-backend client (\<open>LlamaCppClient\<close>)\<close>

text \<open>\<open>sep.join(parts)\<close>.\<close>

fun join :: "string \<Rightarrow> string list \<Rightarrow> string" where
  "join sep [] = []"
| "join sep [x] = x"
| "join sep (x # y # ys) = x @ sep @ join sep (y # ys)"

text \<open>
  \<open>json.dumps\<close> of a dict of strings, with the default separators and
  \<open>ensure_ascii\<close>: the quote and the backslash are escaped with a backslash, the five
  short escapes are used, and every other character outside the printable ASCII range is
  written as \<open>\u00XX\<close> in lower-case hexadecimal.
\<close>

definition hex_digit :: "nat \<Rightarrow> char" where
  "hex_digit n = ''0123456789abcdef'' ! (n mod 16)"

definition json_escape :: "char \<Rightarrow> string" where
  "json_escape c =
     (if c = CHR 0x22 then [CHR 0x5C, CHR 0x22]
      else if c = CHR 0x5C then [CHR 0x5C, CHR 0x5C]
      else if c = CHR 0x0A then [CHR 0x5C, CHR ''n'']
      else if c = CHR 0x0D then [CHR 0x5C, CHR ''r'']
      else if c = CHR 0x09 then [CHR 0x5C, CHR ''t'']
      else if c = CHR 0x08 then [CHR 0x5C, CHR ''b'']
      else if c = CHR 0x0C then [CHR 0x5C, CHR ''f'']
      else if 32 \<le> (of_char c :: nat) \<and> (of_char c :: nat) \<le> 126 then [c]
      else [CHR 0x5C, CHR ''u'', CHR ''0'', CHR ''0'',
            hex_digit (of_char c div 16), hex_digit (of_char c mod 16)])"

definition json_string :: "string \<Rightarrow> string" where
  "json_string s = [CHR 0x22] @ concat (map json_escape s) @ [CHR 0x22]"

definition json_dumps :: "(string \<times> string) list \<Rightarrow> string" where
  "json_dumps d =
     ''{'' @ join '', '' (map (\<lambda>(k, v). json_string k @ '': '' @ json_string v) d) @ ''}''"

text \<open>\<open>str(i)\<close> for a natural number, as the f-string \<open>f"call_{i}"\<close> renders it.\<close>

function show_nat :: "nat \<Rightarrow> string" where
  "show_nat n = (if n < 10 then [hex_digit n] else show_nat (n div 10) @ [hex_digit (n mod 10)])"
  by pat_completeness auto
termination
  by (relation "measure id") auto

record function_call =
  fc_name :: string
  fc_arguments :: string

record tool_call =
  tc_id :: string
  tc_type :: string
  tc_function :: function_call

text \<open>\<open>LlamaCppClient._extract_tool_calls\<close>.\<close>

definition extract_tool_calls :: "string \<Rightarrow> tool_call list" where
  "extract_tool_calls text =
     map (\<lambda>(i, (tool_name, args_str)).
            \<lparr> tc_id = ''call_'' @ show_nat i,
              tc_type = ''function'',
              tc_function = \<lparr> fc_name = tool_name,
                              fc_arguments = json_dumps (parse_args args_str) \<rparr> \<rparr>)
         (enumerate 0 (find_calls ''TOOL_CALL:'' text))"

text \<open>
  A match of \<open>TOOL_CALL:.*?\)\<close> (with \<open>re.DOTALL\<close>) at the start of the text: the text
  after the first \<open>)\<close> that follows the token.
\<close>

definition match_removal :: "string \<Rightarrow> string option" where
  "match_removal s =
     (case after_prefix ''TOOL_CALL:'' s of
        None \<Rightarrow> None
      | Some r \<Rightarrow> (case dropWhile (\<lambda>c. c \<noteq> CHR '')'') r of [] \<Rightarrow> None | d # rest \<Rightarrow> Some rest))"

lemma match_removal_shorter:
  assumes "match_removal s = Some rest"
  shows "length rest < length s"
proof -
  obtain r where r: "after_prefix ''TOOL_CALL:'' s = Some r"
    using assms by (auto simp add: match_removal_def split: option.splits)
  obtain d where d: "dropWhile (\<lambda>c. c \<noteq> CHR '')'') r = d # rest"
    using assms r by (auto simp add: match_removal_def split: list.splits)
  have "length rest < length (dropWhile (\<lambda>c. c \<noteq> CHR '')'') r)" using d by simp
  also have "\<dots> \<le> length r" by (rule length_dropWhile_le)
  also have "\<dots> \<le> length s" using r by (rule after_prefix_length)
  finally show ?thesis .
qed

text \<open>\<open>re.sub(r"TOOL_CALL:.*?\)", "", content, flags=re.DOTALL)\<close>.\<close>

function remove_calls :: "string \<Rightarrow> string" where
  "remove_calls [] = []"
| "remove_calls (c # cs) =
     (case match_removal (c # cs) of
        Some rest \<Rightarrow> remove_calls rest
      | None \<Rightarrow> c # remove_calls cs)"
  by pat_completeness auto
termination
  by (relation "measure length") (auto dest: match_removal_shorter)

text \<open>\<open>str.strip()\<close>.\<close>

definition strip :: "string \<Rightarrow> string" where
  "strip s = rev (dropWhile is_space (rev (dropWhile is_space s)))"

text \<open>
  \<open>LlamaCppClient._format_tools_for_prompt\<close>, on the schemas that
  \<open>get_tool_schema\<close> builds (every key the method looks up is present in them).
\<close>

definition format_tool :: "tool_schema \<Rightarrow> string" where
  "format_tool tool =
     (let func = ts_function tool;
          param_str = join '', '' (map (\<lambda>(k, v). k @ '': '' @ ptype v)
                                       (properties (fs_parameters func)))
      in ''- '' @ fs_name func @ ''('' @ param_str @ ''): '' @ fs_description func)"

definition tool_call_hint :: string where
  "tool_call_hint =
     [CHR 0x0A] @ ''To use a tool, respond with: TOOL_CALL: tool_name(arg1=''
       @ [CHR 0x22] @ ''value1'' @ [CHR 0x22] @ '', arg2='' @ [CHR 0x22] @ ''value2'' @ [CHR 0x22] @ '')''"

definition format_tools_for_prompt :: "tool_schema list \<Rightarrow> string" where
  "format_tools_for_prompt tools =
     (if tools = [] then []
      else join [CHR 0x0A]
             ([''You have access to the following tools:''] @ map format_tool tools
              @ [tool_call_hint]))"

text \<open>The index of the first message of role \<open>system\<close>, if there is one.\<close>

fun first_system :: "message list \<Rightarrow> nat option" where
  "first_system [] = None"
| "first_system (m # ms) =
     (if role m = ''system'' then Some 0 else map_option Suc (first_system ms))"

text \<open>
  The first step of \<open>chat_completions_create\<close>: what it does to the caller's list
  \<open>messages\<close>, in place, when tools are given.
\<close>

definition inject_tools :: "tool_schema list \<Rightarrow> message list \<Rightarrow> message list" where
  "inject_tools tools msgs =
     (if tools = [] then msgs
      else (let tool_prompt = format_tools_for_prompt tools in
            case first_system msgs of
              Some i \<Rightarrow>
                msgs [i := (msgs ! i) \<lparr> content := content (msgs ! i) @ [CHR 0x0A, CHR 0x0A] @ tool_prompt \<rparr>]
            | None \<Rightarrow> \<lparr> role = ''system'', content = tool_prompt, extra = [] \<rparr> # msgs))"

record completion =
  c_content :: string
  c_tool_calls :: "tool_call list"

text \<open>
  \<open>LlamaCppClient.chat_completions_create\<close>.  The model call
  \<open>self.llm.create_chat_completion\<close> is the parameter \<open>llm\<close>: from the messages and
  the token limit to the content of the first choice, or to the exception it raises (the
  temperature is handed on unchanged and left out).  \<open>config_max_tokens\<close> is
  \<open>config.LLAMA_MAX_TOKENS\<close>, and \<open>token_limit\<close> is the expression
  \<open>max_tokens or config.LLAMA_MAX_TOKENS\<close>.  The result is the state of the caller's list after the
  call, and the completion or the exception.
\<close>

definition token_limit :: "int option \<Rightarrow> int \<Rightarrow> int" where
  "token_limit max_tokens config_max_tokens =
     (case max_tokens of
        None \<Rightarrow> config_max_tokens
      | Some n \<Rightarrow> if n = 0 then config_max_tokens else n)"

definition chat_completions_create ::
  "(message list \<Rightarrow> int \<Rightarrow> py_exc + string) \<Rightarrow> int \<Rightarrow> message list \<Rightarrow> int option
     \<Rightarrow> tool_schema list \<Rightarrow> message list \<times> (py_exc + completion)" where
  "chat_completions_create llm config_max_tokens msgs max_tokens tools =
     (let msgs' = inject_tools tools msgs
      in case llm msgs' (token_limit max_tokens config_max_tokens) of
           Inl e \<Rightarrow> (msgs', Inl e)
         | Inr raw \<Rightarrow>
             (let tool_calls = (if tools \<noteq> [] then extract_tool_calls raw else []);
                  text = (if tool_calls \<noteq> [] then strip (remove_calls raw) else raw)
              in (msgs', Inr \<lparr> c_content = text, c_tool_calls = tool_calls \<rparr>)))"


text \<open>A tool list of one schema, that of \<open>get_weather\<close> of module 1, for the examples.\<close>

definition demo_tools :: "tool_schema list" where
  "demo_tools =
     [\<lparr> ts_type = ''function'',
        ts_function =
          \<lparr> fs_name = ''get_weather'',
            fs_description = ''Gets the current weather for a given city.'',
            fs_parameters =
              \<lparr> ps_type = ''object'',
                properties = [(''city'', \<lparr> ptype = ''string'', pdescription = ''The city parameter'' \<rparr>)],
                required = [''city''] \<rparr> \<rparr> \<rparr>]"


section \<open>The tool-calling control loop (\<open>agent_with_tools\<close>, module 1)\<close>

text \<open>
  The unified client \<open>client.chat.completions.create\<close> as the loops see it: from its
  own state (a backend may answer differently each time), the list \<open>messages\<close> and the
  tool list, to its next state, the list \<open>messages\<close> after the call (the local-backend
  client changes it) and the completion or the exception raised.
\<close>

type_synonym 's client =
  "'s \<Rightarrow> message list \<Rightarrow> tool_schema list \<Rightarrow> 's \<times> message list \<times> (py_exc + completion)"

text \<open>The local-backend client over a model \<open>llm\<close> is such a client, without state.\<close>

definition llamacpp_client ::
  "(message list \<Rightarrow> int \<Rightarrow> py_exc + string) \<Rightarrow> int \<Rightarrow> int option \<Rightarrow> unit client" where
  "llamacpp_client llm config_max_tokens max_tokens s msgs tools =
     (s, chat_completions_create llm config_max_tokens msgs max_tokens tools)"

text \<open>What a run returns or raises, and the number of loop iterations it began.\<close>

record run =
  run_result :: "py_exc + string"
  run_iterations :: nat








section \<open>The ReAct agent (module 3)\<close>

text \<open>
  \<open>repr\<close> of a string and \<open>str\<close> of a list of strings, as the f-string of
  \<open>_execute_tool\<close> renders \<open>list(self.tools.keys())\<close>.
\<close>

definition repr_char :: "char \<Rightarrow> char \<Rightarrow> string" where
  "repr_char q c =
     (let n = (of_char c :: nat) in
      if c = q \<or> c = CHR 0x5C then [CHR 0x5C, c]
      else if c = CHR 0x09 then [CHR 0x5C, CHR ''t'']
      else if c = CHR 0x0A then [CHR 0x5C, CHR ''n'']
      else if c = CHR 0x0D then [CHR 0x5C, CHR ''r'']
      else if n < 32 \<or> (127 \<le> n \<and> n \<le> 160) \<or> n = 173
        then [CHR 0x5C, CHR ''x'', hex_digit (n div 16), hex_digit (n mod 16)]
      else [c])"

definition repr_str :: "string \<Rightarrow> string" where
  "repr_str s =
     (let q = (if CHR 0x27 \<in> set s \<and> CHR 0x22 \<notin> set s then CHR 0x22 else CHR 0x27)
      in [q] @ concat (map (repr_char q) s) @ [q])"

definition str_list :: "string list \<Rightarrow> string" where
  "str_list xs = ''['' @ join '', '' (map repr_str xs) @ '']''"

text \<open>
  A tool of the ReAct agent: the function's \<open>__doc__\<close> and its behaviour on the
  argument dict (the evaluation of \<open>str(func(**args))\<close>, as for a capability).
\<close>

record react_tool =
  rt_doc :: "string option"
  rt_call :: "(string \<times> string) list \<Rightarrow> py_exc + string"

record react_agent =
  agent_tools :: "(string \<times> react_tool) list"
  agent_max_iterations :: int
  agent_tool_descriptions :: string

text \<open>\<open>ReActAgent.__init__\<close>.\<close>

definition tool_description :: "string \<times> react_tool \<Rightarrow> string" where
  "tool_description entry =
     (let doc = (case rt_doc (snd entry) of
                   None \<Rightarrow> ''No description available''
                 | Some d \<Rightarrow> if d = [] then ''No description available'' else d)
      in ''- '' @ fst entry @ '': '' @ strip doc)"

definition ReActAgent_init :: "(string \<times> react_tool) list \<Rightarrow> int \<Rightarrow> react_agent" where
  "ReActAgent_init tools max_iterations =
     \<lparr> agent_tools = tools,
       agent_max_iterations = max_iterations,
       agent_tool_descriptions = join [CHR 0x0A] (map tool_description tools) \<rparr>"

text \<open>\<open>ReActAgent._create_system_prompt\<close>.\<close>

definition create_system_prompt :: "react_agent \<Rightarrow> string" where
  "create_system_prompt agent =
     ''You are a helpful assistant that solves problems step by step.'' @ [CHR 0x0A, CHR 0x0A]
     @ ''You have access to the following tools:'' @ [CHR 0x0A]
     @ agent_tool_descriptions agent
     @ [CHR 0x0A, CHR 0x0A] @ ''To solve the problem, you MUST use the following format:''
     @ [CHR 0x0A, CHR 0x0A] @ ''Thought: [Your reasoning about what to do next]''
     @ [CHR 0x0A] @ ''Action: [The tool to use, in the format: tool_name(arg1='' @ [CHR 0x22]
     @ ''value1'' @ [CHR 0x22] @ '', arg2='' @ [CHR 0x22] @ ''value2'' @ [CHR 0x22] @ '')]''
     @ [CHR 0x0A] @ ''Observation: [The result will be provided by the system]''
     @ [CHR 0x0A, CHR 0x0A] @ ''You can repeat the Thought/Action/Observation cycle as many times as needed.''
     @ [CHR 0x0A, CHR 0x0A] @ ''When you have enough information to answer the question, use this format:''
     @ [CHR 0x0A, CHR 0x0A] @ ''Thought: I now have all the information needed to answer the question.''
     @ [CHR 0x0A] @ ''Final Answer: [Your final answer to the original question]''
     @ [CHR 0x0A, CHR 0x0A] @ ''Important:''
     @ [CHR 0x0A] @ ''- Always start with a Thought''
     @ [CHR 0x0A] @ ''- Only use tools that are available''
     @ [CHR 0x0A] @ ''- Be specific in your reasoning''
     @ [CHR 0x0A] @ ''- When you have the answer, provide a Final Answer''
     @ [CHR 0x0A]"

text \<open>
  \<open>ReActAgent._parse_action\<close>: the leftmost match of
  \<open>Action:\s*(\w+)\((.*?)\)\<close>, with the arguments parsed as in the client.
\<close>

definition parse_action :: "string \<Rightarrow> (string \<times> (string \<times> string) list) option" where
  "parse_action text =
     (case search_call ''Action:'' text of
        None \<Rightarrow> None
      | Some (tool_name, args_str) \<Rightarrow> Some (tool_name, parse_args args_str))"

text \<open>
  \<open>ReActAgent._execute_tool\<close>; as in \<open>call_tool\<close>, \<open>str(e)\<close> is evaluated in the
  handler, outside the \<open>try\<close>.
\<close>

definition execute_tool :: "react_agent \<Rightarrow> string \<Rightarrow> (string \<times> string) list \<Rightarrow> py_exc + string" where
  "execute_tool agent tool_name args =
     (case map_of (agent_tools agent) tool_name of
        None \<Rightarrow> Inr (''Error: Tool '' @ [CHR 0x27] @ tool_name @ [CHR 0x27]
                      @ '' not found. Available tools: '' @ str_list (map fst (agent_tools agent)))
      | Some func \<Rightarrow>
          (case rt_call func args of
             Inr res \<Rightarrow> Inr res
           | Inl (Exc str_e) \<Rightarrow>
               (case str_e of
                  Inr msg \<Rightarrow> Inr (''Error executing '' @ tool_name @ '': '' @ msg)
                | Inl e' \<Rightarrow> Inl e')
           | Inl (BaseExc str_e) \<Rightarrow> Inl (BaseExc str_e)))"

text \<open>The text after the leftmost occurrence of a literal, if it occurs.\<close>

fun find_after :: "string \<Rightarrow> string \<Rightarrow> string option" where
  "find_after p [] = after_prefix p []"
| "find_after p (c # cs) =
     (case after_prefix p (c # cs) of Some r \<Rightarrow> Some r | None \<Rightarrow> find_after p cs)"

text \<open>
  \<open>re.search(r"Final Answer:\s*(.+)", agent_output, re.DOTALL)\<close>, group 1: the match
  is at the leftmost occurrence of the marker and needs one character after it; the
  group is all that follows the white space after the marker, or, if only white space
  follows, its last character (which \<open>\s*\<close> gives back to \<open>.+\<close>).
\<close>

definition final_answer_match :: "string \<Rightarrow> string option" where
  "final_answer_match agent_output =
     (case find_after ''Final Answer:'' agent_output of
        None \<Rightarrow> None
      | Some r \<Rightarrow>
          if r = [] then None
          else if dropWhile is_space r \<noteq> [] then Some (dropWhile is_space r)
          else Some [last r])"

definition iteration_limit_message :: string where
  "iteration_limit_message = ''Failed to find an answer within the iteration limit.''"

text \<open>
  The loop of \<open>ReActAgent.run\<close>: \<open>n\<close> iterations are left, \<open>k\<close> were begun.  Both the
  end of the \<open>for\<close> loop and the \<open>break\<close> lead to the one \<open>return\<close> statement after the
  loop.
\<close>

fun react_loop :: "'s client \<Rightarrow> react_agent \<Rightarrow> nat \<Rightarrow> 's \<Rightarrow> message list \<Rightarrow> nat \<Rightarrow> run" where
  "react_loop client agent 0 s msgs k =
     \<lparr> run_result = Inr iteration_limit_message, run_iterations = k \<rparr>"
| "react_loop client agent (Suc n) s msgs k =
     (case client s msgs [] of
        (s', msgs', Inl e) \<Rightarrow> \<lparr> run_result = Inl e, run_iterations = Suc k \<rparr>
      | (s', msgs', Inr response) \<Rightarrow>
          (let agent_output = c_content response;
               msgs'' = msgs' @ [\<lparr> role = ''assistant'', content = agent_output, extra = [] \<rparr>]
           in case (if contains ''Final Answer:'' agent_output
                    then final_answer_match agent_output else None) of
                Some final_answer \<Rightarrow>
                  \<lparr> run_result = Inr (strip final_answer), run_iterations = Suc k \<rparr>
              | None \<Rightarrow>
                  (case parse_action agent_output of
                     Some (tool_name, args) \<Rightarrow>
                       (case execute_tool agent tool_name args of
                          Inl e \<Rightarrow> \<lparr> run_result = Inl e, run_iterations = Suc k \<rparr>
                        | Inr observation \<Rightarrow>
                            react_loop client agent n s'
                              (msgs'' @ [\<lparr> role = ''user'',
                                           content = ''Observation: '' @ observation,
                                           extra = [] \<rparr>])
                              (Suc k))
                   | None \<Rightarrow>
                       \<lparr> run_result = Inr iteration_limit_message, run_iterations = Suc k \<rparr>)))"

text \<open>\<open>ReActAgent.run\<close>.\<close>

definition ReActAgent_run :: "'s client \<Rightarrow> react_agent \<Rightarrow> 's \<Rightarrow> string \<Rightarrow> run" where
  "ReActAgent_run client agent s question =
     react_loop client agent (nat (agent_max_iterations agent)) s
       [\<lparr> role = ''system'', content = create_system_prompt agent, extra = [] \<rparr>,
        \<lparr> role = ''user'', content = question, extra = [] \<rparr>]
       0"


section \<open>Properties of the memory\<close>

lemma length_slice_from_neg: "0 < n \<Longrightarrow> length (slice_from (- n) xs) \<le> nat n"
  by (simp add: slice_from_def)

lemma slice_from_zero: "slice_from 0 xs = xs"
  by (simp add: slice_from_def)

text \<open>For a window of at least one message the bound of the window holds.\<close>

lemma get_messages_bound_pos:
  "0 < window_size mem \<Longrightarrow> length (get_messages mem) \<le> nat (window_size mem) + 1"
proof -
  assume pos: "0 < window_size mem"
  have a: "length (slice_from (- window_size mem) (tl (messages mem))) \<le> nat (window_size mem)"
    using pos by (rule length_slice_from_neg)
  have b: "length (slice_from (- window_size mem) (messages mem)) \<le> nat (window_size mem)"
    using pos by (rule length_slice_from_neg)
  show ?thesis using a b by (simp add: get_messages_def)
qed

text \<open>
  C1.  The claim bounds the materialised view by \<open>N + 1\<close> messages for every \<open>N \<ge> 0\<close> and
  says that with \<open>N = 0\<close> only the system message is returned.  The code computes the
  window with \<open>[-self.window_size:]\<close>, which for \<open>N = 0\<close> is the whole list: a memory
  of window size 0 holding a system prompt and two user messages materialises all three.
\<close>

theorem get_messages_window_zero_returns_all:
  "get_messages (add_message ''user'' ''b'' [] (add_message ''user'' ''a'' [] (Memory_init 0 ''s'')))
     = [\<lparr> role = ''system'', content = ''s'', extra = [] \<rparr>,
        \<lparr> role = ''user'', content = ''a'', extra = [] \<rparr>,
        \<lparr> role = ''user'', content = ''b'', extra = [] \<rparr>]"
  by (simp add: get_messages_def add_message_def Memory_init_def slice_from_def)

text \<open>
  C7.  \<open>clear\<close> followed by \<open>get_messages\<close> yields exactly the stored system message when
  the first stored message had role \<open>system\<close>, and the empty list otherwise, in every
  memory state and for every window size.
\<close>

theorem clear_then_get_messages:
  "get_messages (clear mem) =
     (if messages mem \<noteq> [] \<and> role (hd (messages mem)) = ''system''
      then [hd (messages mem)] else [])"
  by (simp add: get_messages_def clear_def slice_from_def)

lemma messages_add_messages:
  "messages (add_messages ops mem) =
     messages mem @ map (\<lambda>(r, c, k). \<lparr> role = r, content = c, extra = k \<rparr>) ops"
proof (induction ops arbitrary: mem)
  case Nil
  show ?case by (simp add: add_messages_def)
next
  case (Cons op ops)
  obtain r c k where op: "op = (r, c, k)" by (cases op) auto
  have "messages (add_messages ops (add_message r c k mem)) =
          messages (add_message r c k mem) @ map (\<lambda>(r, c, k). \<lparr> role = r, content = c, extra = k \<rparr>) ops"
    by (rule Cons.IH)
  then show ?case by (simp add: add_messages_def op add_message_def)
qed

lemma conversation_invariant_iff:
  "conversation_invariant msgs \<longleftrightarrow> (\<forall>j < length msgs. role (msgs ! j) = ''system'' \<longrightarrow> j = 0)"
proof
  assume "conversation_invariant msgs"
  then have "set (system_positions msgs) \<subseteq> {0}" by (simp add: conversation_invariant_def)
  then show "\<forall>j < length msgs. role (msgs ! j) = ''system'' \<longrightarrow> j = 0"
    by (auto simp add: system_positions_def)
next
  assume r: "\<forall>j < length msgs. role (msgs ! j) = ''system'' \<longrightarrow> j = 0"
  have sub: "set (system_positions msgs) \<subseteq> {0}"
    using r by (auto simp add: system_positions_def)
  have "distinct (system_positions msgs)" by (simp add: system_positions_def)
  then have "length (system_positions msgs) = card (set (system_positions msgs))"
    by (simp add: distinct_card)
  also have "\<dots> \<le> card {0::nat}" using sub by (intro card_mono) simp_all
  finally have "length (system_positions msgs) \<le> 1" by simp
  then show "conversation_invariant msgs" using sub by (simp add: conversation_invariant_def)
qed

text \<open>
  C8 as stated fails: \<open>add_message\<close> validates nothing, so appending a message of role
  \<open>system\<close> to a memory built with a system prompt stores two system messages, the
  second at position 1.
\<close>

theorem add_message_system_breaks_invariant:
  "\<not> conversation_invariant (messages (add_message ''system'' ''b'' [] (Memory_init 10 ''a'')))"
  by (simp add: conversation_invariant_def system_positions_def add_message_def Memory_init_def
      upt_rec [of 0] upt_rec [of 1])

text \<open>
  C8 amended.  For every window size and system prompt, and every sequence of
  \<open>add_message\<close> calls with arbitrary roles, the stored conversation has at most one
  system message, and only at position 0, if and only if no call of role \<open>system\<close> is
  made on a non-empty memory: the only call that may have the role \<open>system\<close> is the
  first one, on a memory built without a system prompt.
\<close>

theorem add_messages_invariant_iff:
  "conversation_invariant (messages (add_messages ops (Memory_init ws sp)))
     \<longleftrightarrow> (\<forall>i < length ops. fst (ops ! i) = ''system'' \<longrightarrow> i = 0 \<and> sp = [])"
proof -
  let ?mk = "\<lambda>(r, c, k). \<lparr> role = r, content = c, extra = k \<rparr>"
  have role_mk: "role (?mk op) = fst op" for op :: "string \<times> string \<times> (string \<times> string) list"
    by (cases op) auto
  show ?thesis
  proof (cases "sp = []")
    case True
    have "messages (add_messages ops (Memory_init ws sp)) = map ?mk ops"
      using True by (simp add: messages_add_messages Memory_init_def)
    then show ?thesis using True by (simp add: conversation_invariant_iff role_mk)
  next
    case False
    have m: "messages (add_messages ops (Memory_init ws sp))
               = \<lparr> role = ''system'', content = sp, extra = [] \<rparr> # map ?mk ops"
      using False by (simp add: messages_add_messages Memory_init_def)
    have "(\<forall>j < Suc (length ops).
             role ((\<lparr> role = ''system'', content = sp, extra = [] \<rparr> # map ?mk ops) ! j) = ''system'' \<longrightarrow> j = 0)
          \<longleftrightarrow> (\<forall>i < length ops. fst (ops ! i) \<noteq> ''system'')"
    proof
      assume a: "\<forall>j < Suc (length ops).
             role ((\<lparr> role = ''system'', content = sp, extra = [] \<rparr> # map ?mk ops) ! j) = ''system'' \<longrightarrow> j = 0"
      show "\<forall>i < length ops. fst (ops ! i) \<noteq> ''system''"
      proof (intro allI impI)
        fix i assume i: "i < length ops"
        show "fst (ops ! i) \<noteq> ''system''" using a [rule_format, of "Suc i"] i by (auto simp add: role_mk)
      qed
    next
      assume b: "\<forall>i < length ops. fst (ops ! i) \<noteq> ''system''"
      show "\<forall>j < Suc (length ops).
             role ((\<lparr> role = ''system'', content = sp, extra = [] \<rparr> # map ?mk ops) ! j) = ''system'' \<longrightarrow> j = 0"
      proof (intro allI impI)
        fix j assume j: "j < Suc (length ops)"
          and s: "role ((\<lparr> role = ''system'', content = sp, extra = [] \<rparr> # map ?mk ops) ! j) = ''system''"
        show "j = 0"
        proof (cases j)
          case 0
          then show ?thesis .
        next
          case (Suc i)
          then have "fst (ops ! i) = ''system''" using s j by (simp add: role_mk)
          then show ?thesis using b Suc j by auto
        qed
      qed
    qed
    then show ?thesis using False by (simp add: conversation_invariant_iff m)
  qed
qed

theorem add_messages_invariant_iff_witness:
  "conversation_invariant
     (messages (add_messages [(''system'', ''Be kind.'', []), (''user'', ''hi'', [])] (Memory_init 3 '''')))
   \<and> \<not> conversation_invariant
     (messages (add_messages [(''user'', ''hi'', []), (''system'', ''Be kind.'', [])] (Memory_init 3 '''')))"
  using add_messages_invariant_iff [of "[(''system'', ''Be kind.'', []), (''user'', ''hi'', [])]" 3 "''''"]
    add_messages_invariant_iff [of "[(''user'', ''hi'', []), (''system'', ''Be kind.'', [])]" 3 "''''"]
  by (auto simp add: less_Suc_eq nth_Cons')


section \<open>Properties of the tool registry\<close>

text \<open>
  What the schema is for a signature whose defaults are ordinary values, for which the
  comparison with \<open>inspect.Parameter.empty\<close> answers false.
\<close>

lemma add_params_ordinary:
  assumes "\<And>p. p \<in> set ps \<Longrightarrow> equals_empty p = Inr (pdefault p = None)"
    and "distinct (map pname ps)" and "pname ` set ps \<inter> fst ` set props = {}"
  shows "add_params ps (props, req) =
     Inr (props @ map (\<lambda>p. (pname p, \<lparr> ptype = ''string'', pdescription = ''The '' @ pname p @ '' parameter'' \<rparr>)) ps,
          req @ map pname (filter (\<lambda>p. pdefault p = None) ps))"
  using assms
proof (induction ps arbitrary: props req)
  case Nil
  then show ?case by simp
next
  case (Cons p ps)
  have e: "equals_empty p = Inr (pdefault p = None)" using Cons.prems(1) by simp
  have fresh: "pname p \<notin> fst ` set props" using Cons.prems(3) by auto
  have upd: "AList.update (pname p) v props = props @ [(pname p, v)]" for v
    using fresh by (induction props) auto
  have ord: "\<And>q. q \<in> set ps \<Longrightarrow> equals_empty q = Inr (pdefault q = None)"
    using Cons.prems(1) by simp
  have d: "distinct (map pname ps)" using Cons.prems(2) by simp
  have disj: "pname ` set ps \<inter> fst ` set (props @ [(pname p, v)]) = {}" for v
    using Cons.prems(2,3) by auto
  show ?case using Cons.IH [OF ord d disj] by (simp add: e upd)
qed

lemma map_of_by_name:
  "distinct (map pname ps) \<Longrightarrow> p \<in> set ps
     \<Longrightarrow> map_of (map (\<lambda>p. (pname p, f p)) ps) (pname p) = Some (f p)"
  by (induction ps) (auto simp add: image_iff)

lemma required_iff:
  assumes d: "distinct (map pname ps)" and p: "p \<in> set ps"
  shows "pname p \<in> set (map pname (filter (\<lambda>p. pdefault p = None) ps)) \<longleftrightarrow> pdefault p = None"
proof
  assume "pname p \<in> set (map pname (filter (\<lambda>p. pdefault p = None) ps))"
  then obtain q where q: "q \<in> set ps" "pdefault q = None" "pname q = pname p"
    by auto
  have "inj_on pname (set ps)" using d by (simp add: distinct_map)
  then have "q = p" using q(1,3) p by (auto dest: inj_onD)
  then show "pdefault p = None" using q(2) by simp
next
  assume "pdefault p = None"
  then show "pname p \<in> set (map pname (filter (\<lambda>p. pdefault p = None) ps))"
    using p by auto
qed

lemma schema_of_ordinary:
  assumes ord: "\<And>p. p \<in> set (cap_params (snd entry)) \<Longrightarrow> equals_empty p = Inr (pdefault p = None)"
    and d: "distinct (map pname (cap_params (snd entry)))"
  shows "\<exists>schema. schema_of entry = Inr schema
     \<and> fs_name (ts_function schema) = fst entry
     \<and> map fst (properties (fs_parameters (ts_function schema))) = map pname (cap_params (snd entry))
     \<and> (\<forall>p \<in> set (cap_params (snd entry)).
           map_of (properties (fs_parameters (ts_function schema))) (pname p)
             = Some \<lparr> ptype = ''string'', pdescription = ''The '' @ pname p @ '' parameter'' \<rparr>
           \<and> (pname p \<in> set (required (fs_parameters (ts_function schema))) \<longleftrightarrow> pdefault p = None))"
proof -
  let ?ps = "cap_params (snd entry)"
  let ?mk = "\<lambda>p. (pname p, \<lparr> ptype = ''string'', pdescription = ''The '' @ pname p @ '' parameter'' \<rparr>)"
  have ap: "add_params ?ps ([], []) =
      Inr (map ?mk ?ps, map pname (filter (\<lambda>p. pdefault p = None) ?ps))"
    using add_params_ordinary [of ?ps "[]" "[]"] ord d by simp
  let ?schema = "\<lparr> ts_type = ''function'',
                   ts_function =
                     \<lparr> fs_name = fst entry,
                       fs_description = description_of (cap_doc (snd entry)),
                       fs_parameters = \<lparr> ps_type = ''object'', properties = map ?mk ?ps,
                                         required = map pname (filter (\<lambda>p. pdefault p = None) ?ps) \<rparr> \<rparr> \<rparr>"
  have s: "schema_of entry = Inr ?schema" by (simp add: schema_of_def ap)
  have c: "map fst (properties (fs_parameters (ts_function ?schema))) = map pname ?ps"
    by (simp add: comp_def)
  have e: "map_of (properties (fs_parameters (ts_function ?schema))) (pname p)
             = Some \<lparr> ptype = ''string'', pdescription = ''The '' @ pname p @ '' parameter'' \<rparr>"
    if "p \<in> set ?ps" for p
    using map_of_by_name [OF d that] by simp
  have f: "pname p \<in> set (required (fs_parameters (ts_function ?schema))) \<longleftrightarrow> pdefault p = None"
    if "p \<in> set ?ps" for p
    using required_iff [OF d that] by simp
  have n: "fs_name (ts_function ?schema) = fst entry" by simp
  show ?thesis using s n c e f by blast
qed

text \<open>
  C9.  The claim lists a parameter as required if and only if it has no default, which
  is also what the comment in the code says.  The code tests
  \<open>param.default == inspect.Parameter.empty\<close>, and the \<open>==\<close> of a default value can
  answer true: for the tool \<open>def fuzzy(x=mock.ANY, y=None)\<close> the parameter \<open>x\<close> has a
  default and is listed in \<open>required\<close>.  (Both parameters are typed \<open>string\<close>, as the
  claim says.)
\<close>

theorem get_tool_schema_requires_defaulted_parameter:
  "get_tool_schema
     [(''fuzzy'',
       \<lparr> cap_name = ''fuzzy'', cap_doc = None,
         cap_params =
           [\<lparr> pname = ''x'', pdefault = Some \<lparr> dv_repr = ''<ANY>'', dv_equals_empty = Inr True \<rparr> \<rparr>,
            \<lparr> pname = ''y'', pdefault = Some \<lparr> dv_repr = ''None'', dv_equals_empty = Inr False \<rparr> \<rparr>],
         cap_call = (\<lambda>a :: unit. Inr ''ok'') \<rparr>)]
   = Inr [\<lparr> ts_type = ''function'',
            ts_function =
              \<lparr> fs_name = ''fuzzy'',
                fs_description = ''No description provided.'',
                fs_parameters =
                  \<lparr> ps_type = ''object'',
                    properties =
                      [(''x'', \<lparr> ptype = ''string'', pdescription = ''The x parameter'' \<rparr>),
                       (''y'', \<lparr> ptype = ''string'', pdescription = ''The y parameter'' \<rparr>)],
                    required = [''x''] \<rparr> \<rparr> \<rparr>]"
  by (simp add: schema_of_def equals_empty_def description_of_def)

text \<open>
  C3 as stated fails: \<open>call_tool\<close> catches with \<open>except Exception\<close>, so a capability
  that raises outside that class (here \<open>SystemExit\<close>, as \<open>sys.exit("bye")\<close> raises it)
  is not turned into a string: the exception leaves \<open>call_tool\<close>.
\<close>

theorem call_tool_propagates_system_exit:
  "call_tool ''shutdown'' ([] :: (string \<times> string) list)
     (register \<lparr> cap_name = ''shutdown'', cap_doc = None, cap_params = [],
                 cap_call = (\<lambda>a. Inl (BaseExc (Inr ''bye''))) \<rparr> [])
     = Inl (BaseExc (Inr ''bye''))"
  by (simp add: call_tool_def register_def)

text \<open>
  What the code does when \<open>str(e)\<close> raises in the handler: that exception leaves
  \<open>call_tool\<close>.
\<close>

lemma call_tool_str_raises:
  "map_of tools tool_name = Some func \<Longrightarrow> cap_call func arguments = Inl (Exc (Inl e))
     \<Longrightarrow> call_tool tool_name arguments tools = Inl e"
  by (simp add: call_tool_def)

text \<open>
  C3 amended.  For every tool name and argument value: \<open>call_tool\<close> returns a string
  whenever the name is not registered, the capability returns, or the capability raises
  an exception of class \<open>Exception\<close> whose message \<open>str(e)\<close> is rendered.  The string
  is the not-found message, the capability's rendered result, or an error string ending
  in the exception's message.  Every exception that a capability raises outside class
  \<open>Exception\<close> leaves \<open>call_tool\<close>.
\<close>

theorem call_tool_returns_string:
  "((\<forall>func. map_of tools tool_name = Some func \<longrightarrow>
        (\<exists>r. cap_call func arguments = Inr r) \<or> (\<exists>msg. cap_call func arguments = Inl (Exc (Inr msg))))
      \<longrightarrow> (\<exists>s. call_tool tool_name arguments tools = Inr s))
   \<and> (map_of tools tool_name = None \<longrightarrow>
        call_tool tool_name arguments tools
          = Inr (''Error: Tool '' @ [CHR 0x27] @ tool_name @ [CHR 0x27] @ '' not found.''))
   \<and> (\<forall>func r. map_of tools tool_name = Some func \<and> cap_call func arguments = Inr r \<longrightarrow>
        call_tool tool_name arguments tools = Inr r)
   \<and> (\<forall>func msg. map_of tools tool_name = Some func \<and> cap_call func arguments = Inl (Exc (Inr msg)) \<longrightarrow>
        call_tool tool_name arguments tools = Inr (''Error calling tool '' @ tool_name @ '': '' @ msg))
   \<and> (\<forall>func str_e. map_of tools tool_name = Some func \<and> cap_call func arguments = Inl (BaseExc str_e) \<longrightarrow>
        call_tool tool_name arguments tools = Inl (BaseExc str_e))"
  by (auto simp add: call_tool_def split: option.splits)

theorem call_tool_returns_string_witness:
  "call_tool ''calculate'' [(''expression'', ''1/0'')]
     [(''calculate'',
       \<lparr> cap_name = ''calculate'', cap_doc = None,
         cap_params = [\<lparr> pname = ''expression'', pdefault = None \<rparr>],
         cap_call = (\<lambda>a :: (string \<times> string) list. Inl (Exc (Inr ''division by zero''))) \<rparr>)]
     = Inr ''Error calling tool calculate: division by zero''"
  using call_tool_returns_string
    [of "[(''calculate'',
       \<lparr> cap_name = ''calculate'', cap_doc = None,
         cap_params = [\<lparr> pname = ''expression'', pdefault = None \<rparr>],
         cap_call = (\<lambda>a :: (string \<times> string) list. Inl (Exc (Inr ''division by zero''))) \<rparr>)]"
      "''calculate''" "[(''expression'', ''1/0'')]"]
  by auto


section \<open>Properties of the local-backend client\<close>

lemma after_prefix_iff: "after_prefix p s = Some r \<longleftrightarrow> s = p @ r"
  by (induction p s rule: after_prefix.induct) auto

lemma dropWhile_Cons_head: "dropWhile P xs = d # rest \<Longrightarrow> \<not> P d \<and> d \<in> set xs"
  by (metis dropWhile_eq_Cons_conv in_set_conv_decomp)

lemma match_call_closes:
  assumes "match_call pre s = Some r"
  shows "\<exists>r0. s = pre @ r0 \<and> CHR '')'' \<in> set r0"
proof -
  obtain r0 where r0: "after_prefix pre s = Some r0"
    using assms by (auto simp add: match_call_def split: option.splits)
  let ?r1 = "dropWhile is_space r0"
  let ?r2 = "dropWhile is_word ?r1"
  obtain c r3 where r2: "?r2 = c # r3"
    using assms r0 by (auto simp add: match_call_def Let_def split: if_splits list.splits)
  obtain d r5 where r4: "dropWhile (\<lambda>c. c \<noteq> CHR '')'') r3 = d # r5"
    using assms r0 r2 by (auto simp add: match_call_def Let_def split: if_splits list.splits)
  have "d = CHR '')''" "d \<in> set r3" using dropWhile_Cons_head [OF r4] by auto
  then have "CHR '')'' \<in> set ?r2" using r2 by simp
  then have "CHR '')'' \<in> set ?r1" by (rule set_dropWhileD)
  then have "CHR '')'' \<in> set r0" by (rule set_dropWhileD)
  then show ?thesis using r0 by (auto simp add: after_prefix_iff)
qed

lemma find_calls_unclosed:
  "(\<And>u v. s = u @ p @ v \<Longrightarrow> CHR '')'' \<notin> set v) \<Longrightarrow> find_calls p s = []"
proof (induction s)
  case Nil
  show ?case by simp
next
  case (Cons c cs)
  have none: "match_call p (c # cs) = None"
  proof (cases "match_call p (c # cs)")
    case None
    then show ?thesis .
  next
    case (Some r)
    then obtain r0 where "c # cs = p @ r0" "CHR '')'' \<in> set r0"
      using match_call_closes by blast
    then show ?thesis using Cons.prems [of "[]" r0] by simp
  qed
  have "find_calls p cs = []"
  proof (rule Cons.IH)
    fix u v assume "cs = u @ p @ v"
    then show "CHR '')'' \<notin> set v" using Cons.prems [of "c # u" v] by simp
  qed
  then show ?case using none by simp
qed

text \<open>
  Every occurrence of a literal lies at or behind the leftmost one: the text after it is
  part of the text after the leftmost occurrence.
\<close>

lemma find_after_covers:
  "s = u @ p @ v \<Longrightarrow> \<exists>w. find_after p s = Some w \<and> set v \<subseteq> set w"
proof (induction u arbitrary: s)
  case Nil
  have ap: "after_prefix p (p @ v) = Some v" by (simp add: after_prefix_iff)
  show ?case
  proof (cases "p @ v")
    case Nil
    then show ?thesis using Nil.prems by simp
  next
    case (Cons c cs)
    then show ?thesis using Nil.prems ap by simp
  qed
next
  case (Cons a u)
  let ?rest = "u @ p @ v"
  have s: "s = a # ?rest" using Cons.prems by simp
  show ?case
  proof (cases "after_prefix p (a # ?rest)")
    case None
    obtain w where "find_after p ?rest = Some w" "set v \<subseteq> set w"
      using Cons.IH [of ?rest] by auto
    then show ?thesis using s None by simp
  next
    case (Some r)
    then have eq: "a # ?rest = p @ r" by (simp add: after_prefix_iff)
    have "r = drop (length p) (a # ?rest)" using eq by simp
    moreover have "v = drop (length (a # u) + length p) (a # ?rest)" by simp
    ultimately have "v = drop (length (a # u)) r"
      by (metis drop_drop)
    then have "set v \<subseteq> set r" by (metis set_drop_subset)
    then show ?thesis using s Some by simp
  qed
qed

text \<open>
  C5 as stated fails: the pattern closes a call at the first \<open>)\<close> that follows, wherever
  it is.  In the completion \<open>TOOL_CALL: f(x="1" and then (maybe) more\<close> the parentheses
  are unbalanced, yet the call \<open>f\<close> is extracted and the text up to \<open>(maybe)\<close> is
  removed.
\<close>

theorem unclosed_call_closed_by_later_parenthesis:
  "snd (chat_completions_create
          (\<lambda>m n. Inr (''TOOL_CALL: f(x='' @ [CHR 0x22] @ ''1'' @ [CHR 0x22] @ '' and then (maybe) more''))
          2048 [] None demo_tools)
     = Inr \<lparr> c_content = ''more'',
             c_tool_calls =
               [\<lparr> tc_id = ''call_0'', tc_type = ''function'',
                  tc_function = \<lparr> fc_name = ''f'',
                                  fc_arguments = ''{'' @ [CHR 0x22] @ ''x'' @ [CHR 0x22] @ '': ''
                                    @ [CHR 0x22] @ ''1'' @ [CHR 0x22] @ ''}'' \<rparr> \<rparr>] \<rparr>"
  by code_simp

text \<open>
  C5 amended.  A textual tool call whose parenthesis is not closed is not extracted: for
  every completion text in which no \<open>)\<close> occurs after any occurrence of the token
  \<open>TOOL_CALL:\<close>, the tool invocations are empty and the returned text is the raw
  completion text, unmodified.
\<close>

theorem unclosed_call_not_extracted:
  assumes "\<forall>u v. raw = u @ ''TOOL_CALL:'' @ v \<longrightarrow> CHR '')'' \<notin> set v"
    and "llm (inject_tools tools msgs) (token_limit max_tokens config_max_tokens) = Inr raw"
  shows "snd (chat_completions_create llm config_max_tokens msgs max_tokens tools)
           = Inr \<lparr> c_content = raw, c_tool_calls = [] \<rparr>"
proof -
  have "find_calls ''TOOL_CALL:'' raw = []"
    by (rule find_calls_unclosed) (use assms(1) in blast)
  then show ?thesis
    using assms(2) by (simp add: chat_completions_create_def extract_tool_calls_def)
qed

theorem unclosed_call_not_extracted_witness:
  "snd (chat_completions_create
          (\<lambda>m n. Inr (''Thanks :) TOOL_CALL: f(x='' @ [CHR 0x22] @ ''1'' @ [CHR 0x22]))
          2048 [] None demo_tools)
     = Inr \<lparr> c_content = ''Thanks :) TOOL_CALL: f(x='' @ [CHR 0x22] @ ''1'' @ [CHR 0x22],
             c_tool_calls = [] \<rparr>"
proof -
  let ?raw = "''Thanks :) TOOL_CALL: f(x='' @ [CHR 0x22] @ ''1'' @ [CHR 0x22]"
  have fa: "find_after ''TOOL_CALL:'' ?raw = Some ('' f(x='' @ [CHR 0x22] @ ''1'' @ [CHR 0x22])"
    by code_simp
  have hyp: "\<forall>u v. ?raw = u @ ''TOOL_CALL:'' @ v \<longrightarrow> CHR '')'' \<notin> set v"
  proof (intro allI impI)
    fix u v assume "?raw = u @ ''TOOL_CALL:'' @ v"
    then obtain w where "find_after ''TOOL_CALL:'' ?raw = Some w" "set v \<subseteq> set w"
      using find_after_covers by blast
    then have "set v \<subseteq> set ('' f(x='' @ [CHR 0x22] @ ''1'' @ [CHR 0x22])" using fa by simp
    then show "CHR '')'' \<notin> set v" by auto
  qed
  show ?thesis
    using unclosed_call_not_extracted
      [OF hyp, of "\<lambda>m n. Inr ?raw" demo_tools "[]" None 2048]
    by simp
qed

lemma first_system_Some:
  "first_system msgs = Some i \<Longrightarrow> i < length msgs \<and> role (msgs ! i) = ''system''"
  by (induction msgs arbitrary: i) (auto split: if_splits)

lemma first_system_update:
  "first_system msgs = Some i
     \<Longrightarrow> first_system (msgs [i := (msgs ! i) \<lparr> content := c \<rparr>]) = Some i"
  by (induction msgs arbitrary: i) (auto split: if_splits)

lemma fst_chat_completions_create:
  "fst (chat_completions_create llm cm msgs mt tools) = inject_tools tools msgs"
  by (simp add: chat_completions_create_def Let_def split: sum.splits)

lemma inject_tools_changes:
  assumes "tools \<noteq> []"
  shows "inject_tools tools msgs \<noteq> msgs"
proof (cases "first_system msgs")
  case None
  have "length (inject_tools tools msgs) = Suc (length msgs)"
    using assms None by (simp add: inject_tools_def)
  then show ?thesis by auto
next
  case (Some i)
  let ?m = "(msgs ! i) \<lparr> content := content (msgs ! i) @ [CHR 0x0A, CHR 0x0A] @ format_tools_for_prompt tools \<rparr>"
  have i: "i < length msgs" using first_system_Some [OF Some] by simp
  have inj: "inject_tools tools msgs = msgs [i := ?m]"
    using assms Some by (simp add: inject_tools_def)
  have "content ((msgs [i := ?m]) ! i) \<noteq> content (msgs ! i)" using i by simp
  then show ?thesis unfolding inj by metis
qed

lemma inject_tools_twice:
  assumes "tools \<noteq> []"
  shows "inject_tools tools (inject_tools tools msgs) =
     (case first_system msgs of
        Some i \<Rightarrow>
          msgs [i := (msgs ! i) \<lparr> content := content (msgs ! i)
                   @ [CHR 0x0A, CHR 0x0A] @ format_tools_for_prompt tools
                   @ [CHR 0x0A, CHR 0x0A] @ format_tools_for_prompt tools \<rparr>]
      | None \<Rightarrow>
          \<lparr> role = ''system'',
            content = format_tools_for_prompt tools
                   @ [CHR 0x0A, CHR 0x0A] @ format_tools_for_prompt tools,
            extra = [] \<rparr> # msgs)"
proof (cases "first_system msgs")
  case None
  then show ?thesis using assms by (simp add: inject_tools_def)
next
  case (Some i)
  have i: "i < length msgs" using first_system_Some [OF Some] by simp
  show ?thesis
    using assms Some i first_system_update [OF Some] by (simp add: inject_tools_def)
qed

text \<open>
  C10.  With a non-empty tool list, the list \<open>messages\<close> of the caller is changed by the
  call, whatever the model answers (also when it raises): the tool instructions are
  appended to the content of the first system message, or a new system message is put
  at position 0 when there is none; the list after the call differs from the list
  before it; and a second call on the same list appends the instructions once more.
\<close>

theorem chat_completions_create_mutates_messages:
  assumes "tools \<noteq> []"
  shows "fst (chat_completions_create llm cm msgs mt tools) =
       (case first_system msgs of
          Some i \<Rightarrow>
            msgs [i := (msgs ! i) \<lparr> content := content (msgs ! i)
                     @ [CHR 0x0A, CHR 0x0A] @ format_tools_for_prompt tools \<rparr>]
        | None \<Rightarrow> \<lparr> role = ''system'', content = format_tools_for_prompt tools, extra = [] \<rparr> # msgs)
     \<and> fst (chat_completions_create llm cm msgs mt tools) \<noteq> msgs
     \<and> fst (chat_completions_create llm' cm' (fst (chat_completions_create llm cm msgs mt tools)) mt' tools) =
       (case first_system msgs of
          Some i \<Rightarrow>
            msgs [i := (msgs ! i) \<lparr> content := content (msgs ! i)
                     @ [CHR 0x0A, CHR 0x0A] @ format_tools_for_prompt tools
                     @ [CHR 0x0A, CHR 0x0A] @ format_tools_for_prompt tools \<rparr>]
        | None \<Rightarrow>
            \<lparr> role = ''system'',
              content = format_tools_for_prompt tools
                     @ [CHR 0x0A, CHR 0x0A] @ format_tools_for_prompt tools,
              extra = [] \<rparr> # msgs)"
proof -
  have a: "inject_tools tools msgs =
       (case first_system msgs of
          Some i \<Rightarrow>
            msgs [i := (msgs ! i) \<lparr> content := content (msgs ! i)
                     @ [CHR 0x0A, CHR 0x0A] @ format_tools_for_prompt tools \<rparr>]
        | None \<Rightarrow> \<lparr> role = ''system'', content = format_tools_for_prompt tools, extra = [] \<rparr> # msgs)"
    using assms by (simp add: inject_tools_def Let_def)
  have b: "inject_tools tools msgs \<noteq> msgs" by (rule inject_tools_changes [OF assms])
  note c = inject_tools_twice [OF assms, of msgs]
  show ?thesis
    unfolding fst_chat_completions_create by (intro conjI) (rule a, rule b, rule c)
qed

theorem chat_completions_create_mutates_messages_witness:
  "demo_tools \<noteq> []
   \<and> fst (chat_completions_create (\<lambda>m n. Inr ''ok'') 2048
        [\<lparr> role = ''system'', content = ''Be brief.'', extra = [] \<rparr>,
         \<lparr> role = ''user'', content = ''hi'', extra = [] \<rparr>] None demo_tools)
     = [\<lparr> role = ''system'',
          content = ''Be brief.'' @ [CHR 0x0A, CHR 0x0A] @ format_tools_for_prompt demo_tools,
          extra = [] \<rparr>,
        \<lparr> role = ''user'', content = ''hi'', extra = [] \<rparr>]"
  using chat_completions_create_mutates_messages
    [of demo_tools "\<lambda>m n. Inr ''ok''" 2048
        "[\<lparr> role = ''system'', content = ''Be brief.'', extra = [] \<rparr>,
          \<lparr> role = ''user'', content = ''hi'', extra = [] \<rparr>]" None]
  by (simp add: demo_tools_def)

lemma contains_append: "contains p (u @ p @ v)"
proof (induction u)
  case Nil
  show ?case
  proof (cases "p @ v")
    case Nil
    then show ?thesis by simp
  next
    case (Cons c cs)
    have "after_prefix p (p @ v) = Some v" by (simp add: after_prefix_iff)
    then show ?thesis using Cons by simp
  qed
next
  case (Cons a u)
  then show ?case by simp
qed

lemma token_no_overlap:
  assumes nc: "\<not> contains ''TOOL_CALL:'' pre"
    and split: "pre = u @ v" and ne: "v \<noteq> []"
  shows "after_prefix ''TOOL_CALL:'' (v @ ''TOOL_CALL:'' @ rest) = None"
proof (rule ccontr)
  assume "after_prefix ''TOOL_CALL:'' (v @ ''TOOL_CALL:'' @ rest) \<noteq> None"
  then obtain r where eq: "v @ ''TOOL_CALL:'' @ rest = ''TOOL_CALL:'' @ r"
    by (auto simp add: after_prefix_iff)
  show False
  proof (cases "10 \<le> length v")
    case True
    have "take 10 (v @ ''TOOL_CALL:'' @ rest) = take 10 (''TOOL_CALL:'' @ r)" using eq by simp
    then have "take 10 v = ''TOOL_CALL:''" using True by simp
    then have "v = ''TOOL_CALL:'' @ drop 10 v" by (metis append_take_drop_id)
    then have "pre = u @ ''TOOL_CALL:'' @ drop 10 v" using split by simp
    then have "contains ''TOOL_CALL:'' pre" using contains_append by metis
    then show False using nc by simp
  next
    case False
    let ?k = "9 - length v"
    have k: "?k < 9" using ne False by (cases v) auto
    have "(v @ ''TOOL_CALL:'' @ rest) ! 9 = (''TOOL_CALL:'' @ r) ! 9" using eq by simp
    moreover have "(v @ ''TOOL_CALL:'' @ rest) ! 9 = (''TOOL_CALL:'' @ rest) ! ?k"
      using False by (simp add: nth_append)
    moreover have "(''TOOL_CALL:'' @ rest) ! ?k = ''TOOL_CALL'' ! ?k"
      using k by (simp add: nth_append nth_Cons')
    moreover have "(''TOOL_CALL:'' @ r) ! 9 = CHR '':''" by simp
    ultimately have "''TOOL_CALL'' ! ?k = CHR '':''" by simp
    moreover have "''TOOL_CALL'' ! ?k \<in> set ''TOOL_CALL''" using k by (intro nth_mem) simp
    ultimately show False by simp
  qed
qed

lemma match_call_None: "after_prefix pre s = None \<Longrightarrow> match_call pre s = None"
  by (simp add: match_call_def)

lemma match_removal_None: "after_prefix ''TOOL_CALL:'' s = None \<Longrightarrow> match_removal s = None"
  by (simp add: match_removal_def)

lemma find_calls_skip:
  "(\<And>u v. pre = u @ v \<Longrightarrow> v \<noteq> [] \<Longrightarrow> after_prefix p (v @ s) = None)
     \<Longrightarrow> find_calls p (pre @ s) = find_calls p s"
proof (induction pre)
  case Nil
  then show ?case by simp
next
  case (Cons c cs)
  have "after_prefix p ((c # cs) @ s) = None" using Cons.prems [of "[]" "c # cs"] by simp
  then have none: "match_call p (c # (cs @ s)) = None" by (simp add: match_call_None)
  have "find_calls p (cs @ s) = find_calls p s"
  proof (rule Cons.IH)
    fix u v assume "cs = u @ v" "v \<noteq> []"
    then show "after_prefix p (v @ s) = None" using Cons.prems [of "c # u" v] by simp
  qed
  then show ?case using none by simp
qed

lemma remove_calls_skip:
  "(\<And>u v. pre = u @ v \<Longrightarrow> v \<noteq> [] \<Longrightarrow> after_prefix ''TOOL_CALL:'' (v @ s) = None)
     \<Longrightarrow> remove_calls (pre @ s) = pre @ remove_calls s"
proof (induction pre)
  case Nil
  then show ?case by simp
next
  case (Cons c cs)
  have "after_prefix ''TOOL_CALL:'' ((c # cs) @ s) = None" using Cons.prems [of "[]" "c # cs"] by simp
  then have none: "match_removal (c # (cs @ s)) = None" by (simp add: match_removal_None)
  have "remove_calls (cs @ s) = cs @ remove_calls s"
  proof (rule Cons.IH)
    fix u v assume "cs = u @ v" "v \<noteq> []"
    then show "after_prefix ''TOOL_CALL:'' (v @ s) = None" using Cons.prems [of "c # u" v] by simp
  qed
  then show ?case using none by simp
qed

lemma find_calls_clean: "\<not> contains p s \<Longrightarrow> find_calls p s = []"
proof (induction s)
  case Nil
  then show ?case by simp
next
  case (Cons c cs)
  have "after_prefix p (c # cs) = None" "\<not> contains p cs" using Cons.prems by auto
  then show ?case using Cons.IH by (simp add: match_call_None)
qed

lemma remove_calls_clean: "\<not> contains ''TOOL_CALL:'' s \<Longrightarrow> remove_calls s = s"
proof (induction s)
  case Nil
  then show ?case by simp
next
  case (Cons c cs)
  have "after_prefix ''TOOL_CALL:'' (c # cs) = None" "\<not> contains ''TOOL_CALL:'' cs"
    using Cons.prems by auto
  then show ?case using Cons.IH by (simp add: match_removal_None)
qed

lemma match_call_f:
  "match_call ''TOOL_CALL:'' (''TOOL_CALL: f(x='' @ [CHR 0x22] @ ''1'' @ [CHR 0x22] @ '')'' @ rest)
     = Some (''f'', ''x='' @ [CHR 0x22] @ ''1'' @ [CHR 0x22], rest)"
  by (simp add: match_call_def is_space_def is_word_def)

lemma match_call_g:
  "match_call ''TOOL_CALL:'' (''TOOL_CALL: g(y='' @ [CHR 0x22] @ ''2'' @ [CHR 0x22] @ '')'' @ rest)
     = Some (''g'', ''y='' @ [CHR 0x22] @ ''2'' @ [CHR 0x22], rest)"
  by (simp add: match_call_def is_space_def is_word_def)

lemma match_removal_f:
  "match_removal (''TOOL_CALL: f(x='' @ [CHR 0x22] @ ''1'' @ [CHR 0x22] @ '')'' @ rest) = Some rest"
  by (simp add: match_removal_def)

lemma match_removal_g:
  "match_removal (''TOOL_CALL: g(y='' @ [CHR 0x22] @ ''2'' @ [CHR 0x22] @ '')'' @ rest) = Some rest"
  by (simp add: match_removal_def)

lemma arguments_f:
  "json_dumps (parse_args (''x='' @ [CHR 0x22] @ ''1'' @ [CHR 0x22]))
     = ''{'' @ [CHR 0x22] @ ''x'' @ [CHR 0x22] @ '': '' @ [CHR 0x22] @ ''1'' @ [CHR 0x22] @ ''}''"
  by code_simp

lemma arguments_g:
  "json_dumps (parse_args (''y='' @ [CHR 0x22] @ ''2'' @ [CHR 0x22]))
     = ''{'' @ [CHR 0x22] @ ''y'' @ [CHR 0x22] @ '': '' @ [CHR 0x22] @ ''2'' @ [CHR 0x22] @ ''}''"
  by code_simp

lemma show_nat_0_1: "show_nat 0 = ''0''" "show_nat 1 = ''1''"
  by code_simp+

lemma find_calls_two:
  assumes pre: "\<not> contains ''TOOL_CALL:'' pre"
    and mid: "\<not> contains ''TOOL_CALL:'' mid"
    and post: "\<not> contains ''TOOL_CALL:'' post"
  shows "find_calls ''TOOL_CALL:''
           (pre @ ''TOOL_CALL: f(x='' @ [CHR 0x22] @ ''1'' @ [CHR 0x22] @ '')''
              @ mid @ ''TOOL_CALL: g(y='' @ [CHR 0x22] @ ''2'' @ [CHR 0x22] @ '')'' @ post)
         = [(''f'', ''x='' @ [CHR 0x22] @ ''1'' @ [CHR 0x22]),
            (''g'', ''y='' @ [CHR 0x22] @ ''2'' @ [CHR 0x22])]"
proof -
  let ?G = "''TOOL_CALL: g(y='' @ [CHR 0x22] @ ''2'' @ [CHR 0x22] @ '')''"
  let ?F = "''TOOL_CALL: f(x='' @ [CHR 0x22] @ ''1'' @ [CHR 0x22] @ '')''"
  have s4: "find_calls ''TOOL_CALL:'' post = []" using post by (rule find_calls_clean)
  have s3: "find_calls ''TOOL_CALL:'' (?G @ post) = [(''g'', ''y='' @ [CHR 0x22] @ ''2'' @ [CHR 0x22])]"
    using match_call_g [of post] s4 by simp
  have "find_calls ''TOOL_CALL:'' (mid @ ?G @ post) = find_calls ''TOOL_CALL:'' (?G @ post)"
  proof (rule find_calls_skip)
    fix u v assume "mid = u @ v" "v \<noteq> []"
    then show "after_prefix ''TOOL_CALL:'' (v @ ?G @ post) = None"
      using token_no_overlap [OF mid, of u v "'' g(y='' @ [CHR 0x22] @ ''2'' @ [CHR 0x22] @ '')'' @ post"]
      by simp
  qed
  then have s2: "find_calls ''TOOL_CALL:'' (mid @ ?G @ post)
                   = [(''g'', ''y='' @ [CHR 0x22] @ ''2'' @ [CHR 0x22])]"
    using s3 by simp
  have s1: "find_calls ''TOOL_CALL:'' (?F @ mid @ ?G @ post)
          = [(''f'', ''x='' @ [CHR 0x22] @ ''1'' @ [CHR 0x22]),
             (''g'', ''y='' @ [CHR 0x22] @ ''2'' @ [CHR 0x22])]"
    using match_call_f [of "mid @ ?G @ post"] s2 by simp
  have "find_calls ''TOOL_CALL:'' (pre @ ?F @ mid @ ?G @ post)
          = find_calls ''TOOL_CALL:'' (?F @ mid @ ?G @ post)"
  proof (rule find_calls_skip)
    fix u v assume "pre = u @ v" "v \<noteq> []"
    then show "after_prefix ''TOOL_CALL:'' (v @ ?F @ mid @ ?G @ post) = None"
      using token_no_overlap [OF pre, of u v
          "'' f(x='' @ [CHR 0x22] @ ''1'' @ [CHR 0x22] @ '')'' @ mid @ ?G @ post"]
      by simp
  qed
  then show ?thesis using s1 by simp
qed

lemma remove_calls_two:
  assumes pre: "\<not> contains ''TOOL_CALL:'' pre"
    and mid: "\<not> contains ''TOOL_CALL:'' mid"
    and post: "\<not> contains ''TOOL_CALL:'' post"
  shows "remove_calls
           (pre @ ''TOOL_CALL: f(x='' @ [CHR 0x22] @ ''1'' @ [CHR 0x22] @ '')''
              @ mid @ ''TOOL_CALL: g(y='' @ [CHR 0x22] @ ''2'' @ [CHR 0x22] @ '')'' @ post)
         = pre @ mid @ post"
proof -
  let ?G = "''TOOL_CALL: g(y='' @ [CHR 0x22] @ ''2'' @ [CHR 0x22] @ '')''"
  let ?F = "''TOOL_CALL: f(x='' @ [CHR 0x22] @ ''1'' @ [CHR 0x22] @ '')''"
  have s4: "remove_calls post = post" using post by (rule remove_calls_clean)
  have s3: "remove_calls (?G @ post) = post"
    using match_removal_g [of post] s4 by simp
  have "remove_calls (mid @ ?G @ post) = mid @ remove_calls (?G @ post)"
  proof (rule remove_calls_skip)
    fix u v assume "mid = u @ v" "v \<noteq> []"
    then show "after_prefix ''TOOL_CALL:'' (v @ ?G @ post) = None"
      using token_no_overlap [OF mid, of u v "'' g(y='' @ [CHR 0x22] @ ''2'' @ [CHR 0x22] @ '')'' @ post"]
      by simp
  qed
  then have s2: "remove_calls (mid @ ?G @ post) = mid @ post" using s3 by simp
  have s1: "remove_calls (?F @ mid @ ?G @ post) = mid @ post"
    using match_removal_f [of "mid @ ?G @ post"] s2 by simp
  have "remove_calls (pre @ ?F @ mid @ ?G @ post) = pre @ remove_calls (?F @ mid @ ?G @ post)"
  proof (rule remove_calls_skip)
    fix u v assume "pre = u @ v" "v \<noteq> []"
    then show "after_prefix ''TOOL_CALL:'' (v @ ?F @ mid @ ?G @ post) = None"
      using token_no_overlap [OF pre, of u v
          "'' f(x='' @ [CHR 0x22] @ ''1'' @ [CHR 0x22] @ '')'' @ mid @ ?G @ post"]
      by simp
  qed
  then show ?thesis using s1 by simp
qed

text \<open>
  C4.  With a non-empty tool list, when the raw completion consists of any text \<open>pre\<close>,
  the call \<open>TOOL_CALL: f(x="1")\<close>, any text \<open>mid\<close>, the call \<open>TOOL_CALL: g(y="2")\<close> and
  any text \<open>post\<close>, where the token \<open>TOOL_CALL:\<close> occurs in none of the three texts (so
  the completion holds exactly these two occurrences), the client returns exactly the
  two invocations \<open>f\<close> and \<open>g\<close> in this order, with the ids \<open>call_0\<close> and \<open>call_1\<close>, and the
  returned text is the completion with both occurrences removed (and, as the code ends
  with \<open>.strip()\<close>, without the white space at its two ends).
\<close>

theorem two_tool_calls_extracted:
  assumes tools: "tools \<noteq> []"
    and pre: "\<not> contains ''TOOL_CALL:'' pre"
    and mid: "\<not> contains ''TOOL_CALL:'' mid"
    and post: "\<not> contains ''TOOL_CALL:'' post"
    and raw: "llm (inject_tools tools msgs) (token_limit max_tokens config_max_tokens)
                = Inr (pre @ ''TOOL_CALL: f(x='' @ [CHR 0x22] @ ''1'' @ [CHR 0x22] @ '')''
                         @ mid @ ''TOOL_CALL: g(y='' @ [CHR 0x22] @ ''2'' @ [CHR 0x22] @ '')'' @ post)"
  shows "snd (chat_completions_create llm config_max_tokens msgs max_tokens tools)
     = Inr \<lparr> c_content = strip (pre @ mid @ post),
             c_tool_calls =
               [\<lparr> tc_id = ''call_0'', tc_type = ''function'',
                  tc_function = \<lparr> fc_name = ''f'',
                                  fc_arguments = ''{'' @ [CHR 0x22] @ ''x'' @ [CHR 0x22] @ '': ''
                                    @ [CHR 0x22] @ ''1'' @ [CHR 0x22] @ ''}'' \<rparr> \<rparr>,
                \<lparr> tc_id = ''call_1'', tc_type = ''function'',
                  tc_function = \<lparr> fc_name = ''g'',
                                  fc_arguments = ''{'' @ [CHR 0x22] @ ''y'' @ [CHR 0x22] @ '': ''
                                    @ [CHR 0x22] @ ''2'' @ [CHR 0x22] @ ''}'' \<rparr> \<rparr>] \<rparr>"
proof -
  let ?raw = "pre @ ''TOOL_CALL: f(x='' @ [CHR 0x22] @ ''1'' @ [CHR 0x22] @ '')''
                @ mid @ ''TOOL_CALL: g(y='' @ [CHR 0x22] @ ''2'' @ [CHR 0x22] @ '')'' @ post"
  have calls: "extract_tool_calls ?raw =
       [\<lparr> tc_id = ''call_0'', tc_type = ''function'',
          tc_function = \<lparr> fc_name = ''f'',
                          fc_arguments = ''{'' @ [CHR 0x22] @ ''x'' @ [CHR 0x22] @ '': ''
                            @ [CHR 0x22] @ ''1'' @ [CHR 0x22] @ ''}'' \<rparr> \<rparr>,
        \<lparr> tc_id = ''call_1'', tc_type = ''function'',
          tc_function = \<lparr> fc_name = ''g'',
                          fc_arguments = ''{'' @ [CHR 0x22] @ ''y'' @ [CHR 0x22] @ '': ''
                            @ [CHR 0x22] @ ''2'' @ [CHR 0x22] @ ''}'' \<rparr> \<rparr>]"
    unfolding extract_tool_calls_def find_calls_two [OF pre mid post]
    using arguments_f arguments_g show_nat_0_1 by (simp add: enumerate_eq_zip upt_rec)
  have removed: "remove_calls ?raw = pre @ mid @ post"
    by (rule remove_calls_two [OF pre mid post])
  show ?thesis
    unfolding chat_completions_create_def Let_def raw using tools calls removed by simp
qed
theorem two_tool_calls_extracted_witness:
  "snd (chat_completions_create
          (\<lambda>m n. Inr (''Sure. TOOL_CALL: f(x='' @ [CHR 0x22] @ ''1'' @ [CHR 0x22] @ '') and TOOL_CALL: g(y=''
                         @ [CHR 0x22] @ ''2'' @ [CHR 0x22] @ '') done''))
          2048 [] None demo_tools)
     = Inr \<lparr> c_content = ''Sure.  and  done'',
             c_tool_calls =
               [\<lparr> tc_id = ''call_0'', tc_type = ''function'',
                  tc_function = \<lparr> fc_name = ''f'',
                                  fc_arguments = ''{'' @ [CHR 0x22] @ ''x'' @ [CHR 0x22] @ '': ''
                                    @ [CHR 0x22] @ ''1'' @ [CHR 0x22] @ ''}'' \<rparr> \<rparr>,
                \<lparr> tc_id = ''call_1'', tc_type = ''function'',
                  tc_function = \<lparr> fc_name = ''g'',
                                  fc_arguments = ''{'' @ [CHR 0x22] @ ''y'' @ [CHR 0x22] @ '': ''
                                    @ [CHR 0x22] @ ''2'' @ [CHR 0x22] @ ''}'' \<rparr> \<rparr>] \<rparr>"
  using two_tool_calls_extracted
    [of demo_tools "''Sure. ''" "'' and ''" "'' done''"
        "\<lambda>m n. Inr (''Sure. TOOL_CALL: f(x='' @ [CHR 0x22] @ ''1'' @ [CHR 0x22] @ '') and TOOL_CALL: g(y=''
                         @ [CHR 0x22] @ ''2'' @ [CHR 0x22] @ '') done'')"
        "[]" None 2048]
  by (simp add: demo_tools_def strip_def is_space_def)


section \<open>Properties of the control loops\<close>





text \<open>
  What the loop of \<open>ReActAgent.run\<close> does, in any of its iterations, on a completion
  with neither the marker \<open>Final Answer:\<close> nor a parseable action: it ends the run in
  that iteration with the string that is also returned when no iteration is left.
\<close>

lemma react_loop_break:
  assumes "client s msgs [] = (s', msgs', Inr response)"
    and "\<not> contains ''Final Answer:'' (c_content response)"
    and "parse_action (c_content response) = None"
  shows "react_loop client agent (Suc n) s msgs k
           = \<lparr> run_result = Inr ''Failed to find an answer within the iteration limit.'',
               run_iterations = Suc k \<rparr>
     \<and> run_result (react_loop client agent 0 s msgs k)
           = Inr ''Failed to find an answer within the iteration limit.''"
  using assms by (simp add: Let_def iteration_limit_message_def)

text \<open>
  C2.  The claim says that a protocol violation ends the run with a result that differs
  from the one of iteration exhaustion.  In the code, the branch for a completion with
  neither an action nor a final answer (``something went wrong'') leaves the loop with
  \<open>break\<close> and falls into the lines written for exhaustion: they report that the
  maximum of iterations was reached and return the iteration-limit string.  A run that
  stops in the first of its three iterations on such a completion and a run that uses
  up both of its two iterations return the same string.
\<close>

theorem protocol_violation_same_string:
  "ReActAgent_run
     (\<lambda>s msgs tools. (s, msgs, Inr \<lparr> c_content = ''I am not sure.'', c_tool_calls = [] \<rparr>))
     (ReActAgent_init [] 3) () ''q''
   = \<lparr> run_result = Inr ''Failed to find an answer within the iteration limit.'', run_iterations = 1 \<rparr>
   \<and> ReActAgent_run
     (\<lambda>s msgs tools. (s, msgs, Inr \<lparr> c_content = ''Action: search(query='' @ [CHR 0x22] @ ''x'' @ [CHR 0x22] @ '')'',
                                      c_tool_calls = [] \<rparr>))
     (ReActAgent_init [] 2) () ''q''
   = \<lparr> run_result = Inr ''Failed to find an answer within the iteration limit.'', run_iterations = 2 \<rparr>"
  by code_simp


end
